theory Spec2Isabelle
  imports Complex_Main "HOL-Library.Word"
begin

section \<open>Values, errors and transaction data of the AVM\<close>

text \<open>
  \<^verbatim>\<open>vaa-processor.py\<close> is a PyTeal program: every Python function builds an expression
  that the AVM (the Algorand virtual machine, TEAL version 5) evaluates inside one
  application call of a transaction group. The embedding evaluates these expressions.
  A stack value is a \<open>uint64\<close> or a byte string. The \<open>uint64\<close> values are natural numbers
  here; the only arithmetic of the program is on loop counters and group sizes.
  A failing opcode (an \<open>Assert\<close> on 0, an out-of-range \<open>Extract\<close>, a \<open>Btoi\<close> of more than
  eight bytes, a comparison of a \<open>uint64\<close> with a byte string, ...) ends the program
  with failure, which rejects the whole transaction group: it is the \<open>Inl\<close> branch of
  every result.
\<close>

type_synonym byte = "8 word"
type_synonym bytes = "byte list"

datatype teal_value = Uint nat | Bytes bytes

datatype error =
    AssertFailed
  | ExtractOutOfRange
  | BtoiTooLong
  | TypeMismatch
  | ArgIndexOutOfRange
  | GtxnIndexOutOfRange
  | GloadNotAllowed
  | BitIndexOutOfRange
  | Underflow

datatype txn_type =
  Payment | KeyRegistration | AssetConfig | AssetTransfer | AssetFreeze | ApplicationCall

record transaction =
  sender :: bytes
  application_args :: "bytes list"
  txn_note :: bytes
  type_enum :: txn_type
  application_id :: nat

text \<open>
  What a call reads and cannot change: the current transaction \<open>Txn\<close>, the group
  \<open>Gtxn\<close> (its length is \<open>Global.group_size()\<close>), \<open>Txn.group_index()\<close>,
  \<open>Global.creator_address()\<close>, and the scratch space each earlier transaction of
  the group left behind (read by \<open>ImportScratchValue\<close>).
\<close>

record call_ctx =
  txn :: transaction
  gtxn :: "transaction list"
  group_index :: nat
  creator_address :: bytes
  gscratch :: "nat \<Rightarrow> nat \<Rightarrow> teal_value"

datatype handler = Governance | PythPriceTicker

text \<open>
  What a call can change: the application's global state (a map from byte-string keys
  to values) and its own scratch slots; both scratch variables of the program are
  declared \<open>TealType.uint64\<close>. The field \<open>invoked\<close> is not AVM state: the two
  handlers of the source are stubs that only return 1, and the field records which of
  them ran, in order.
\<close>

record state =
  globals :: "bytes \<rightharpoonup> teal_value"
  scratch :: "nat \<Rightarrow> nat"
  invoked :: "handler list"

definition bindE :: "error + 'a \<Rightarrow> ('a \<Rightarrow> error + 'b) \<Rightarrow> error + 'b" where
  "bindE m f = (case m of Inl e \<Rightarrow> Inl e | Inr x \<Rightarrow> f x)"

definition bytes_of :: "string \<Rightarrow> bytes" where
  "bytes_of s = map (\<lambda>ch. of_nat (of_char ch)) s"

definition store :: "state \<Rightarrow> nat \<Rightarrow> nat \<Rightarrow> state" where
  "store s slot v = s\<lparr>scratch := (scratch s)(slot := v)\<rparr>"

definition globalGet :: "state \<Rightarrow> bytes \<Rightarrow> teal_value" where
  \<comment> \<open>\<open>app_global_get\<close>: the value of the key, or the \<open>uint64\<close> 0 when it is absent\<close>
  "globalGet s k = (case globals s k of None \<Rightarrow> Uint 0 | Some v \<Rightarrow> v)"

definition globalPut :: "state \<Rightarrow> bytes \<Rightarrow> teal_value \<Rightarrow> state" where
  "globalPut s k v = s\<lparr>globals := (globals s)(k \<mapsto> v)\<rparr>"

definition Itob :: "nat \<Rightarrow> bytes" where
  \<comment> \<open>the eight bytes of a \<open>uint64\<close>, most significant first\<close>
  "Itob n = map (\<lambda>k. of_nat (n div 256 ^ k)) [7, 6, 5, 4, 3, 2, 1, 0]"

definition be_nat :: "bytes \<Rightarrow> nat" where
  \<comment> \<open>the number a byte string denotes, most significant byte first\<close>
  "be_nat bs = foldl (\<lambda>a b. a * 256 + unat b) 0 bs"

definition Btoi :: "bytes \<Rightarrow> error + nat" where
  \<comment> \<open>\<open>btoi\<close> fails if the input is longer than eight bytes\<close>
  "Btoi bs = (if length bs > 8 then Inl BtoiTooLong else Inr (be_nat bs))"

definition Extract :: "bytes \<Rightarrow> nat \<Rightarrow> nat \<Rightarrow> error + bytes" where
  \<comment> \<open>\<open>extract\<close>/\<open>extract3\<close>: fails if the range runs past the end of the string\<close>
  "Extract bs start len =
     (if start + len \<le> length bs then Inr (take len (drop start bs))
      else Inl ExtractOutOfRange)"

definition Len :: "bytes \<Rightarrow> nat" where
  "Len bs = length bs"

definition teal_eq :: "teal_value \<Rightarrow> teal_value \<Rightarrow> error + bool" where
  \<comment> \<open>\<open>==\<close>: both operands must have the same type\<close>
  "teal_eq a b =
     (case (a, b) of
        (Uint x, Uint y) \<Rightarrow> Inr (x = y)
      | (Bytes x, Bytes y) \<Rightarrow> Inr (x = y)
      | _ \<Rightarrow> Inl TypeMismatch)"

definition teal_neq :: "teal_value \<Rightarrow> teal_value \<Rightarrow> error + bool" where
  "teal_neq a b = bindE (teal_eq a b) (\<lambda>r. Inr (\<not> r))"

definition as_uint :: "teal_value \<Rightarrow> error + nat" where
  \<comment> \<open>an operand of \<open>uint64\<close> arithmetic\<close>
  "as_uint v = (case v of Uint n \<Rightarrow> Inr n | Bytes _ \<Rightarrow> Inl TypeMismatch)"

definition minus_u64 :: "nat \<Rightarrow> nat \<Rightarrow> error + nat" where
  \<comment> \<open>\<open>-\<close> fails on underflow\<close>
  "minus_u64 a b = (if b \<le> a then Inr (a - b) else Inl Underflow)"

definition GetBit :: "teal_value \<Rightarrow> nat \<Rightarrow> error + nat" where
  \<comment> \<open>\<open>getbit\<close>: bit 0 of an integer is its lowest bit, bit 0 of a byte string is the
      highest bit of its first byte\<close>
  "GetBit v i =
     (case v of
        Uint n \<Rightarrow>
          if i < 64 then Inr (if bit n i then 1 else 0) else Inl BitIndexOutOfRange
      | Bytes bs \<Rightarrow>
          if i < 8 * length bs then Inr (if bit (bs ! (i div 8)) (7 - i mod 8) then 1 else 0)
          else Inl BitIndexOutOfRange)"

definition SetBit :: "nat \<Rightarrow> nat \<Rightarrow> nat \<Rightarrow> error + nat" where
  \<comment> \<open>\<open>setbit\<close> on an integer\<close>
  "SetBit n i b =
     (if i < 64 \<and> b \<le> 1 then Inr (if b = 1 then set_bit i n else unset_bit i n)
      else Inl BitIndexOutOfRange)"

definition arg :: "transaction \<Rightarrow> nat \<Rightarrow> error + bytes" where
  \<comment> \<open>\<open>Txn.application_args[i]\<close>\<close>
  "arg t i =
     (if i < length (application_args t) then Inr (application_args t ! i)
      else Inl ArgIndexOutOfRange)"

definition Gtxn :: "call_ctx \<Rightarrow> nat \<Rightarrow> error + transaction" where
  "Gtxn c i = (if i < length (gtxn c) then Inr (gtxn c ! i) else Inl GtxnIndexOutOfRange)"

definition group_size :: "call_ctx \<Rightarrow> nat" where
  "group_size c = length (gtxn c)"

definition ImportScratchValue :: "call_ctx \<Rightarrow> nat \<Rightarrow> nat \<Rightarrow> error + teal_value" where
  \<comment> \<open>\<open>gloads\<close>: fails unless the transaction is an application call earlier in the
      group than the current one\<close>
  "ImportScratchValue c t slot =
     (if t < group_index c \<and> t < length (gtxn c) \<and> type_enum (gtxn c ! t) = ApplicationCall
      then Inr (gscratch c t slot) else Inl GloadNotAllowed)"

definition outcome_state :: "state \<Rightarrow> error + nat \<times> state \<Rightarrow> state" where
  \<comment> \<open>the state after a call: a call that fails or returns 0 is rejected and changes nothing\<close>
  "outcome_state s r =
     (case r of Inl e \<Rightarrow> s | Inr (v, s') \<Rightarrow> if v = 0 then s else s')"

section \<open>The step partitioner\<close>

text \<open>
  \<^verbatim>\<open>from globals import MAX_SIGNATURES_PER_VERIFICATION_STEP, get_group_size,
  get_sig_count_in_step\<close>: the module \<^verbatim>\<open>globals\<close> is not among the source files. The
  constant is the parameter \<open>M\<close> of every definition that depends on it.
\<close>

definition get_group_size :: "nat \<Rightarrow> nat \<Rightarrow> nat" where
  \<comment> \<open>Modelled from the spec: \<^verbatim>\<open>globals.get_group_size\<close> is missing;
      \<open>stepCount = ceil(guardianCount / maxSignaturesPerStep)\<close>.\<close>
  "get_group_size M n = (n + M - 1) div M"

definition signer_range :: "nat \<Rightarrow> nat \<Rightarrow> nat \<Rightarrow> nat \<times> nat" where
  \<comment> \<open>Modelled from the spec: the signer range of step \<open>i\<close>, as the pair of its bounds,
      \<open>[i*maxSignaturesPerStep, min((i+1)*maxSignaturesPerStep, guardianCount))\<close>.\<close>
  "signer_range M n i = (i * M, min ((i + 1) * M) n)"

definition get_sig_count_in_step :: "nat \<Rightarrow> nat \<Rightarrow> nat \<Rightarrow> nat" where
  \<comment> \<open>Modelled from the spec: \<^verbatim>\<open>globals.get_sig_count_in_step\<close> is missing; the number
      of keys that step \<open>i\<close> carries is the size of its signer range.\<close>
  "get_sig_count_in_step M i n = snd (signer_range M n i) - fst (signer_range M n i)"

section \<open>The program\<close>

definition SLOTID_TEMP_0 :: nat where "SLOTID_TEMP_0 = 251"
definition SLOTID_VERIFIED_BIT :: nat where "SLOTID_VERIFIED_BIT = 254"

definition GOVERNANCE_CHAIN_ID_TEST :: nat where "GOVERNANCE_CHAIN_ID_TEST = 3"
definition GOVERNANCE_CONTRACT_ID_TEST :: nat where "GOVERNANCE_CONTRACT_ID_TEST = 4"
definition PYTH2WORMHOLE_CHAIN_ID_TEST :: nat where "PYTH2WORMHOLE_CHAIN_ID_TEST = 5"
definition PYTH2WORMHOLE_CONTRACT_ID_TEST :: nat where "PYTH2WORMHOLE_CONTRACT_ID_TEST = 6"

definition VAA_RECORD_EMITTER_CHAIN_POS :: nat where "VAA_RECORD_EMITTER_CHAIN_POS = 8"
definition VAA_RECORD_EMITTER_CHAIN_LEN :: nat where "VAA_RECORD_EMITTER_CHAIN_LEN = 2"
definition VAA_RECORD_EMITTER_ADDR_POS :: nat where "VAA_RECORD_EMITTER_ADDR_POS = 10"
definition VAA_RECORD_EMITTER_ADDR_LEN :: nat where "VAA_RECORD_EMITTER_ADDR_LEN = 32"

definition VERIFY_ARG_GUARDIAN_KEY_SUBSET :: "call_ctx \<Rightarrow> error + bytes" where
  "VERIFY_ARG_GUARDIAN_KEY_SUBSET c = arg (txn c) 1"

definition VERIFY_ARG_GUARDIAN_SET_SIZE :: "call_ctx \<Rightarrow> error + bytes" where
  "VERIFY_ARG_GUARDIAN_SET_SIZE c = arg (txn c) 2"

definition VERIFY_ARG_PAYLOAD :: "call_ctx \<Rightarrow> bytes" where
  "VERIFY_ARG_PAYLOAD c = txn_note (txn c)"

definition STATELESS_LOGIC_HASH :: "state \<Rightarrow> teal_value" where
  "STATELESS_LOGIC_HASH s = globalGet s (bytes_of ''vphash'')"

definition NUM_GUARDIANS :: "state \<Rightarrow> teal_value" where
  "NUM_GUARDIANS s = globalGet s (bytes_of ''gscount'')"

definition is_creator :: "call_ctx \<Rightarrow> bool" where
  "is_creator c = (sender (txn c) = creator_address c)"

subsection \<open>\<^verbatim>\<open>check_guardian_key_subset\<close>\<close>

definition guardian_key_differs :: "call_ctx \<Rightarrow> state \<Rightarrow> nat \<Rightarrow> error + bool" where
  \<comment> \<open>the condition of the \<open>If\<close> in the loop body:
      \<^verbatim>\<open>App.globalGet(Itob(i)) != Extract(VERIFY_ARG_GUARDIAN_KEY_SUBSET, i * 64, 64)\<close>\<close>
  "guardian_key_differs c s i =
     bindE (VERIFY_ARG_GUARDIAN_KEY_SUBSET c) (\<lambda>a.
     bindE (Extract a (i * 64) 64) (\<lambda>k.
       teal_neq (globalGet s (Itob i)) (Bytes k)))"

function key_subset_loop :: "nat \<Rightarrow> call_ctx \<Rightarrow> state \<Rightarrow> error + nat \<times> state" where
  "key_subset_loop M c s =
     (case as_uint (NUM_GUARDIANS s) of
        Inl e \<Rightarrow> Inl e
      | Inr n \<Rightarrow>
          if scratch s SLOTID_TEMP_0 < get_sig_count_in_step M (group_index c) n then
            (case guardian_key_differs c s (scratch s SLOTID_TEMP_0) of
               Inl e \<Rightarrow> Inl e
             | Inr d \<Rightarrow>
                 if d then Inr (0, s)
                 else key_subset_loop M c (store s SLOTID_TEMP_0 (scratch s SLOTID_TEMP_0 + 1)))
          else Inr (1, s))"
  by pat_completeness auto
termination
  by (relation "measure (\<lambda>(M, c, s).
        (case as_uint (NUM_GUARDIANS s) of Inl e \<Rightarrow> 0
         | Inr n \<Rightarrow> get_sig_count_in_step M (group_index c) n) - scratch s SLOTID_TEMP_0)")
     (auto simp: store_def NUM_GUARDIANS_def globalGet_def SLOTID_TEMP_0_def)

declare key_subset_loop.simps [simp del]

definition check_guardian_key_subset :: "nat \<Rightarrow> call_ctx \<Rightarrow> state \<Rightarrow> error + nat \<times> state" where
  "check_guardian_key_subset M c s = key_subset_loop M c (store s SLOTID_TEMP_0 0)"

subsection \<open>\<^verbatim>\<open>check_guardian_set_size\<close>\<close>

definition check_guardian_set_size :: "call_ctx \<Rightarrow> state \<Rightarrow> error + bool" where
  "check_guardian_set_size c s =
     bindE (VERIFY_ARG_GUARDIAN_SET_SIZE c) (\<lambda>a.
     bindE (Btoi a) (\<lambda>n.
       teal_eq (NUM_GUARDIANS s) (Uint n)))"

subsection \<open>The handlers and \<^verbatim>\<open>commit_vaa\<close>\<close>

definition handle_governance :: "state \<Rightarrow> nat \<times> state" where
  "handle_governance s = (1, s\<lparr>invoked := invoked s @ [Governance]\<rparr>)"

definition handle_pyth_price_ticker :: "state \<Rightarrow> nat \<times> state" where
  "handle_pyth_price_ticker s = (1, s\<lparr>invoked := invoked s @ [PythPriceTicker]\<rparr>)"

definition commit_vaa_dispatch :: "nat \<Rightarrow> nat \<Rightarrow> state \<Rightarrow> nat \<times> state" where
  \<comment> \<open>the \<open>If\<close>/\<open>ElseIf\<close>/\<open>Else\<close> of \<open>commit_vaa\<close> on the two decoded header fields\<close>
  "commit_vaa_dispatch chainId contractId s =
     (if chainId = GOVERNANCE_CHAIN_ID_TEST \<and> contractId = GOVERNANCE_CONTRACT_ID_TEST
      then handle_governance s
      else if chainId = PYTH2WORMHOLE_CHAIN_ID_TEST \<and> contractId = GOVERNANCE_CONTRACT_ID_TEST
      then handle_pyth_price_ticker s
      else (0, s))"

definition commit_vaa :: "bytes \<Rightarrow> state \<Rightarrow> error + nat \<times> state" where
  \<comment> \<open>\<open>And\<close> evaluates both operands, so \<open>chainId\<close> and \<open>contractId\<close> are both computed
      before the first comparison is used\<close>
  "commit_vaa payload s =
     bindE (Extract payload VAA_RECORD_EMITTER_CHAIN_POS VAA_RECORD_EMITTER_CHAIN_LEN) (\<lambda>cb.
     bindE (Btoi cb) (\<lambda>chainId.
     bindE (Extract payload VAA_RECORD_EMITTER_ADDR_POS VAA_RECORD_EMITTER_ADDR_LEN) (\<lambda>ab.
     bindE (Btoi ab) (\<lambda>contractId.
       Inr (commit_vaa_dispatch chainId contractId s)))))"

subsection \<open>\<^verbatim>\<open>check_final_verification_state\<close>\<close>

definition final_check :: "call_ctx \<Rightarrow> nat \<Rightarrow> error + bool" where
  \<comment> \<open>the argument of the \<open>Assert\<close> in the loop body, at index \<open>i\<close>; \<open>And\<close> evaluates
      its three operands\<close>
  "final_check c i =
     bindE (Gtxn c i) (\<lambda>t.
     bindE (ImportScratchValue c i SLOTID_VERIFIED_BIT) (\<lambda>v.
     bindE (GetBit v i) (\<lambda>b.
       Inr (type_enum t = ApplicationCall \<and> application_id t = application_id (txn c)
            \<and> b = 1))))"

text \<open>
  The loop need not return: \<open>None\<close> is the run that never leaves the loop. The step
  of the source's \<open>For\<close> is \<^verbatim>\<open>i.store(i.load() + Int(0))\<close>.
\<close>

partial_function (option) final_loop :: "call_ctx \<Rightarrow> state \<Rightarrow> (error + nat \<times> state) option" where
  "final_loop c s =
     (if scratch s SLOTID_TEMP_0 < group_size c then
        (case final_check c (scratch s SLOTID_TEMP_0) of
           Inl e \<Rightarrow> Some (Inl e)
         | Inr ok \<Rightarrow>
             if ok then final_loop c (store s SLOTID_TEMP_0 (scratch s SLOTID_TEMP_0 + 0))
             else Some (Inl AssertFailed))
      else Some (Inr (1, s)))"

definition check_final_verification_state ::
    "call_ctx \<Rightarrow> state \<Rightarrow> (error + nat \<times> state) option" where
  "check_final_verification_state c s = final_loop c (store s SLOTID_TEMP_0 0)"

subsection \<open>\<^verbatim>\<open>setvphash\<close>\<close>

definition setvphash :: "call_ctx \<Rightarrow> state \<Rightarrow> error + nat \<times> state" where
  "setvphash c s =
     bindE (arg (txn c) 1) (\<lambda>h.
       if is_creator c \<and> group_size c = 1 \<and> length (application_args (txn c)) = 2
          \<and> Len h = 32
       then Inr (1, globalPut s (bytes_of ''vphash'') (Bytes h))
       else Inl AssertFailed)"

subsection \<open>\<^verbatim>\<open>verify\<close>\<close>

definition verify_checks :: "nat \<Rightarrow> call_ctx \<Rightarrow> state \<Rightarrow> error + bool \<times> state" where
  \<comment> \<open>the argument of the first \<open>Assert\<close>: \<open>And\<close> evaluates its five operands in order\<close>
  "verify_checks M c s =
     bindE (as_uint (NUM_GUARDIANS s)) (\<lambda>n.
     bindE (teal_eq (Bytes (sender (txn c))) (STATELESS_LOGIC_HASH s)) (\<lambda>sender_ok.
     bindE (check_guardian_set_size c s) (\<lambda>size_ok.
     bindE (check_guardian_key_subset M c s) (\<lambda>(keys_ok, s').
       Inr (group_size c = get_group_size M n
            \<and> length (application_args (txn c)) = 3
            \<and> sender_ok \<and> size_ok \<and> keys_ok \<noteq> 0, s')))))"

definition verify :: "nat \<Rightarrow> call_ctx \<Rightarrow> state \<Rightarrow> (error + nat \<times> state) option" where
  "verify M c s =
     (case verify_checks M c (store s SLOTID_VERIFIED_BIT 0) of
        Inl e \<Rightarrow> Some (Inl e)
      | Inr (ok, s1) \<Rightarrow>
          if \<not> ok then Some (Inl AssertFailed)
          else
            (case SetBit (scratch s1 SLOTID_VERIFIED_BIT) (group_index c) 1 of
               Inl e \<Rightarrow> Some (Inl e)
             | Inr v \<Rightarrow>
                 (case minus_u64 (group_size c) 1 of
                    Inl e \<Rightarrow> Some (Inl e)
                  | Inr final_index \<Rightarrow>
                      if group_index c = final_index then
                        (case check_final_verification_state c (store s1 SLOTID_VERIFIED_BIT v) of
                           None \<Rightarrow> None
                         | Some (Inl e) \<Rightarrow> Some (Inl e)
                         | Some (Inr (r, s2)) \<Rightarrow>
                             if r = 0 then Some (Inl AssertFailed)
                             else Some (commit_vaa (VERIFY_ARG_PAYLOAD c) s2))
                      else Some (Inr (1, store s1 SLOTID_VERIFIED_BIT v)))))"

section \<open>Example inputs\<close>

text \<open>
  The scenario of the spec: five guardians and a step capacity of two, so three
  verification steps with the signer ranges \<open>[0,2)\<close>, \<open>[2,4)\<close> and \<open>[4,5)\<close>. Guardian \<open>j\<close>
  has the 64-byte key whose bytes are all \<open>j\<close>.
\<close>

definition guardian_key :: "nat \<Rightarrow> bytes" where
  "guardian_key j = replicate 64 (of_nat j)"

definition verifier_hash :: bytes where
  "verifier_hash = replicate 32 170"

definition owner_address :: bytes where
  "owner_address = replicate 32 1"

definition registry5 :: state where
  "registry5 =
     \<lparr>globals = map_of
        [(bytes_of ''vphash'', Bytes verifier_hash),
         (bytes_of ''gscount'', Uint 5),
         (Itob 0, Bytes (guardian_key 0)),
         (Itob 1, Bytes (guardian_key 1)),
         (Itob 2, Bytes (guardian_key 2)),
         (Itob 3, Bytes (guardian_key 3)),
         (Itob 4, Bytes (guardian_key 4))],
      scratch = (\<lambda>slot. 0),
      invoked = []\<rparr>"

definition verify_txn :: "bytes \<Rightarrow> bytes \<Rightarrow> transaction" where
  "verify_txn keys payload =
     \<lparr>sender = verifier_hash,
      application_args = [bytes_of ''verify'', keys, Itob 5],
      txn_note = payload,
      type_enum = ApplicationCall,
      application_id = 7\<rparr>"

definition unroutable_payload :: bytes where
  \<comment> \<open>emitter chain 7, emitter address 9\<close>
  "unroutable_payload = replicate 8 0 @ [0, 7] @ replicate 31 0 @ [9]"

definition misrouted_payload :: bytes where
  \<comment> \<open>emitter chain 5, emitter address 4\<close>
  "misrouted_payload = replicate 8 0 @ [0, 5] @ replicate 31 0 @ [4]"

definition pyth_payload :: bytes where
  \<comment> \<open>emitter chain 5, emitter address 6\<close>
  "pyth_payload = replicate 8 0 @ [0, 5] @ replicate 31 0 @ [6]"

definition verify_group :: "transaction list" where
  "verify_group =
     [verify_txn (guardian_key 0 @ guardian_key 1) pyth_payload,
      verify_txn (guardian_key 2 @ guardian_key 3) pyth_payload,
      verify_txn (guardian_key 4) pyth_payload]"

definition bits_set :: "nat \<Rightarrow> nat \<Rightarrow> teal_value" where
  \<comment> \<open>every earlier step left its own bit in slot 254\<close>
  "bits_set t slot = (if slot = 254 then Uint (2 ^ t) else Uint 0)"

definition step_ctx :: "nat \<Rightarrow> transaction \<Rightarrow> call_ctx" where
  \<comment> \<open>the call of step \<open>i\<close> of the group, with \<open>t\<close> as its transaction\<close>
  "step_ctx i t =
     \<lparr>txn = t, gtxn = verify_group[i := t], group_index = i,
      creator_address = owner_address, gscratch = bits_set\<rparr>"

definition step0_ctx :: call_ctx where
  \<comment> \<open>step 0, carrying the keys of guardians 0 and 1\<close>
  "step0_ctx = step_ctx 0 (verify_txn (guardian_key 0 @ guardian_key 1) pyth_payload)"

definition step1_ctx :: "bytes \<Rightarrow> call_ctx" where
  \<comment> \<open>step 1, whose signer range is \<open>[2,4)\<close>, carrying \<open>keys\<close>\<close>
  "step1_ctx keys = step_ctx 1 (verify_txn keys pyth_payload)"

definition last_ctx :: call_ctx where
  \<comment> \<open>step 2, the last one\<close>
  "last_ctx = step_ctx 2 (verify_txn (guardian_key 4) pyth_payload)"

definition foreign_txn :: transaction where
  \<comment> \<open>a call of another application\<close>
  "foreign_txn =
     \<lparr>sender = owner_address, application_args = [], txn_note = [],
      type_enum = ApplicationCall, application_id = 99\<rparr>"

definition foreign_step_ctx :: call_ctx where
  \<comment> \<open>the last step of a group whose step 1 is a call of another application that
      left no bit\<close>
  "foreign_step_ctx =
     \<lparr>txn = verify_txn (guardian_key 4) pyth_payload,
      gtxn = verify_group[1 := foreign_txn], group_index = 2,
      creator_address = owner_address,
      gscratch = (\<lambda>t slot. if t = 1 then Uint 0 else bits_set t slot)\<rparr>"

definition admin_ctx :: call_ctx where
  \<comment> \<open>the owner calls \<open>setvphash\<close> alone in its group\<close>
  "admin_ctx =
     (let t = \<lparr>sender = owner_address,
                application_args = [bytes_of ''setvphash'', verifier_hash],
                txn_note = [], type_enum = ApplicationCall, application_id = 7\<rparr>
      in \<lparr>txn = t, gtxn = [t], group_index = 0, creator_address = owner_address,
          gscratch = (\<lambda>t slot. Uint 0)\<rparr>)"

section \<open>The step partitioner: properties\<close>

lemma group_size_upper: "1 \<le> M \<Longrightarrow> n \<le> get_group_size M n * M"
proof -
  assume M: "1 \<le> M"
  have "(n + M - 1) mod M < M" using M by simp
  moreover have "(n + M - 1) div M * M + (n + M - 1) mod M = n + M - 1" by simp
  ultimately show ?thesis unfolding get_group_size_def using M by linarith
qed

lemma group_size_lower: "1 \<le> M \<Longrightarrow> 1 \<le> n \<Longrightarrow> (get_group_size M n - 1) * M < n"
proof -
  assume M: "1 \<le> M" and n: "1 \<le> n"
  have le: "(n + M - 1) div M * M \<le> n + M - 1" by simp
  have pos: "1 \<le> (n + M - 1) div M" using M n by (simp add: Suc_le_eq div_greater_zero_iff)
  have "((n + M - 1) div M - 1) * M = (n + M - 1) div M * M - M"
    by (simp add: diff_mult_distrib)
  then show ?thesis unfolding get_group_size_def using le pos M n by linarith
qed

lemma group_size_pos: "1 \<le> M \<Longrightarrow> 1 \<le> n \<Longrightarrow> 1 \<le> get_group_size M n"
  by (simp add: get_group_size_def Suc_le_eq div_greater_zero_iff)

lemma group_size_ceiling:
  assumes M: "1 \<le> M" and n: "1 \<le> n"
  shows "int (get_group_size M n) = \<lceil>real n / real M\<rceil>"
proof -
  let ?K = "get_group_size M n"
  have K: "1 \<le> ?K" by (rule group_size_pos [OF M n])
  have Mpos: "0 < real M" using M by simp
  have "real n \<le> real (?K * M)" using group_size_upper [OF M, of n] by (simp only: of_nat_le_iff)
  then have up: "real n / real M \<le> real ?K" using Mpos by (simp add: pos_divide_le_eq)
  have "real ((?K - 1) * M) < real n" using group_size_lower [OF M n] by (simp only: of_nat_less_iff)
  then have "real (?K - 1) < real n / real M" using Mpos by (simp add: pos_less_divide_eq)
  then have lo: "real ?K - 1 < real n / real M" using K by (simp add: of_nat_diff)
  have "\<lceil>real n / real M\<rceil> = int ?K"
    by (rule ceiling_unique) (use lo up in simp_all)
  then show ?thesis by simp
qed

lemma range_union:
  assumes M: "1 \<le> M"
  shows "(\<Union>i<get_group_size M n. {fst (signer_range M n i) ..< snd (signer_range M n i)}) = {0..<n}"
proof (rule set_eqI, rule iffI)
  fix x
  assume "x \<in> (\<Union>i<get_group_size M n. {fst (signer_range M n i) ..< snd (signer_range M n i)})"
  then show "x \<in> {0..<n}" by (auto simp: signer_range_def)
next
  fix x
  assume "x \<in> {0..<n}"
  then have x: "x < n" by simp
  have Mpos: "0 < M" using M by simp
  have "x < get_group_size M n * M" using x group_size_upper [OF M, of n] by linarith
  then have i: "x div M < get_group_size M n" using Mpos by (simp add: less_mult_imp_div_less)
  have lo: "x div M * M \<le> x" by simp
  have "x < (x div M + 1) * M" using Mpos
    by (metis add.commute div_less_iff_less_mult less_add_one mult.commute Mpos)
  then have "x \<in> {fst (signer_range M n (x div M)) ..< snd (signer_range M n (x div M))}"
    using lo x by (simp add: signer_range_def)
  then show "x \<in> (\<Union>i<get_group_size M n. {fst (signer_range M n i) ..< snd (signer_range M n i)})"
    using i by blast
qed

lemma range_disjoint:
  assumes "i < j"
  shows "{fst (signer_range M n i) ..< snd (signer_range M n i)} \<inter>
         {fst (signer_range M n j) ..< snd (signer_range M n j)} = {}"
proof -
  have "(i + 1) * M \<le> j * M" by (rule mult_le_mono1) (use assms in simp)
  then show ?thesis by (auto simp: signer_range_def)
qed

lemma range_contiguous:
  assumes M: "1 \<le> M" and "Suc i < get_group_size M n"
  shows "snd (signer_range M n i) = fst (signer_range M n (Suc i))"
proof -
  have "Suc i * M \<le> (get_group_size M n - 1) * M" by (rule mult_le_mono1) (use assms in simp)
  moreover have "1 \<le> n" using assms by (cases n) (auto simp: get_group_size_def)
  ultimately have "Suc i * M < n" using group_size_lower [OF M] by fastforce
  then show ?thesis by (simp add: signer_range_def)
qed

lemma range_nonempty:
  assumes M: "1 \<le> M" and n: "1 \<le> n" and i: "i < get_group_size M n"
  shows "fst (signer_range M n i) < snd (signer_range M n i)"
proof -
  have "i * M \<le> (get_group_size M n - 1) * M" by (rule mult_le_mono1) (use i in simp)
  then have "i * M < n" using group_size_lower [OF M n] by linarith
  then show ?thesis using M by (simp add: signer_range_def)
qed

lemma range_last:
  assumes M: "1 \<le> M" and n: "1 \<le> n"
  shows "snd (signer_range M n (get_group_size M n - 1)) = n"
proof -
  have "get_group_size M n - 1 + 1 = get_group_size M n"
    using group_size_pos [OF M n] by simp
  then show ?thesis using group_size_upper [OF M, of n] by (simp add: signer_range_def)
qed

text \<open>
  Claim C9. For every guardian-set size \<open>N \<ge> 1\<close> and step capacity \<open>M \<ge> 1\<close> the
  partitioner yields \<open>ceil(N/M)\<close> steps; the signer ranges
  \<open>[i*M, min((i+1)*M, N))\<close> of these steps cover \<open>[0, N)\<close> exactly, are pairwise
  disjoint, are non-empty, and each ends where the next begins, the first at 0 and
  the last at \<open>N\<close>. For \<open>N = 5\<close> and \<open>M = 2\<close> there are three steps, with the ranges
  \<open>[0,2)\<close>, \<open>[2,4)\<close>, \<open>[4,5)\<close>.
\<close>

theorem step_partition:
  assumes "1 \<le> N" and "1 \<le> M"
  shows "int (get_group_size M N) = \<lceil>real N / real M\<rceil>
       \<and> (\<Union>i<get_group_size M N.
             {fst (signer_range M N i) ..< snd (signer_range M N i)}) = {0..<N}
       \<and> (\<forall>i j. i < j \<longrightarrow>
             {fst (signer_range M N i) ..< snd (signer_range M N i)} \<inter>
             {fst (signer_range M N j) ..< snd (signer_range M N j)} = {})
       \<and> (\<forall>i. Suc i < get_group_size M N \<longrightarrow>
             snd (signer_range M N i) = fst (signer_range M N (Suc i)))
       \<and> (\<forall>i. i < get_group_size M N \<longrightarrow>
             fst (signer_range M N i) < snd (signer_range M N i))
       \<and> fst (signer_range M N 0) = 0
       \<and> snd (signer_range M N (get_group_size M N - 1)) = N
       \<and> get_group_size 2 5 = 3
       \<and> map (signer_range 2 5) [0, 1, 2] = [(0, 2), (2, 4), (4, 5)]"
proof -
  note M = \<open>1 \<le> M\<close> and N = \<open>1 \<le> N\<close>
  have "fst (signer_range M N 0) = 0" by (simp add: signer_range_def)
  moreover have "get_group_size 2 5 = 3 \<and> map (signer_range 2 5) [0, 1, 2] = [(0, 2), (2, 4), (4, 5)]"
    by (simp add: get_group_size_def signer_range_def)
  ultimately show ?thesis
    using group_size_ceiling [OF M N] range_union [OF M, of N] range_disjoint [of _ _ M N]
      range_contiguous [OF M, of _ N] range_nonempty [OF M N] range_last [OF M N]
    by blast
qed

theorem step_partition_witness:
  "int (get_group_size 2 5) = \<lceil>real 5 / real 2\<rceil>
   \<and> (\<Union>i<get_group_size 2 5.
         {fst (signer_range 2 5 i) ..< snd (signer_range 2 5 i)}) = {0..<5}
   \<and> snd (signer_range 2 5 (get_group_size 2 5 - 1)) = 5"
proof -
  have h: "(1::nat) \<le> 5" "(1::nat) \<le> 2" by simp_all
  from step_partition [OF h] show ?thesis by (elim conjE) (intro conjI, assumption+)
qed

section \<open>The guardian key check\<close>

lemma globals_store [simp]: "globals (store s k v) = globals s"
  by (simp add: store_def)

lemma scratch_store [simp]: "scratch (store s k v) k' = (if k' = k then v else scratch s k')"
  by (simp add: store_def)

lemma invoked_store [simp]: "invoked (store s k v) = invoked s"
  by (simp add: store_def)

lemma store_store [simp]: "store (store s k v) k v' = store s k v'"
  by (simp add: store_def)

lemma store_same: "store s k (scratch s k) = s"
  by (simp add: store_def)

lemma NUM_GUARDIANS_store [simp]: "NUM_GUARDIANS (store s k v) = NUM_GUARDIANS s"
  by (simp add: NUM_GUARDIANS_def globalGet_def)

lemma STATELESS_LOGIC_HASH_store [simp]:
  "STATELESS_LOGIC_HASH (store s k v) = STATELESS_LOGIC_HASH s"
  by (simp add: STATELESS_LOGIC_HASH_def globalGet_def)

text \<open>One iteration of the loop of \<^verbatim>\<open>check_guardian_key_subset\<close>.\<close>

lemma key_loop_next:
  assumes "NUM_GUARDIANS s = Uint n"
      and "scratch s SLOTID_TEMP_0 = i"
      and "i < get_sig_count_in_step M (group_index c) n"
      and "guardian_key_differs c s i = Inr False"
  shows "key_subset_loop M c s = key_subset_loop M c (store s SLOTID_TEMP_0 (i + 1))"
  using assms by (subst key_subset_loop.simps) (simp add: as_uint_def)

lemma key_loop_differs:
  assumes "NUM_GUARDIANS s = Uint n"
      and "scratch s SLOTID_TEMP_0 = i"
      and "i < get_sig_count_in_step M (group_index c) n"
      and "guardian_key_differs c s i = Inr True"
  shows "key_subset_loop M c s = Inr (0, s)"
  using assms by (subst key_subset_loop.simps) (simp add: as_uint_def)

lemma key_loop_exit:
  assumes "NUM_GUARDIANS s = Uint n"
      and "scratch s SLOTID_TEMP_0 = i"
      and "\<not> i < get_sig_count_in_step M (group_index c) n"
  shows "key_subset_loop M c s = Inr (1, s)"
  using assms by (subst key_subset_loop.simps) (simp add: as_uint_def)

text \<open>The loop writes nothing but its counter.\<close>

lemma key_subset_loop_frame:
  "key_subset_loop M c s = Inr (v, s') \<Longrightarrow>
     globals s' = globals s \<and> invoked s' = invoked s \<and>
     (\<forall>k. k \<noteq> SLOTID_TEMP_0 \<longrightarrow> scratch s' k = scratch s k)"
proof (induction M c s rule: key_subset_loop.induct)
  case (1 M c s)
  let ?i = "scratch s SLOTID_TEMP_0"
  show ?case
  proof (cases "as_uint (NUM_GUARDIANS s)")
    case (Inl e)
    with "1.prems" show ?thesis by (simp add: key_subset_loop.simps [of M c s])
  next
    case (Inr n)
    show ?thesis
    proof (cases "?i < get_sig_count_in_step M (group_index c) n")
      case False
      with Inr "1.prems" show ?thesis by (simp add: key_subset_loop.simps [of M c s])
    next
      case less: True
      show ?thesis
      proof (cases "guardian_key_differs c s ?i")
        case (Inl e)
        with Inr less "1.prems" show ?thesis by (simp add: key_subset_loop.simps [of M c s])
      next
        case d: (Inr d)
        show ?thesis
        proof (cases d)
          case True
          with Inr less d "1.prems" show ?thesis
            by (simp add: key_subset_loop.simps [of M c s])
        next
          case False
          with Inr less d "1.prems"
          have "key_subset_loop M c (store s SLOTID_TEMP_0 (?i + 1)) = Inr (v, s')"
            by (simp add: key_subset_loop.simps [of M c s])
          from "1.IH" [OF Inr less d False this] show ?thesis by simp
        qed
      qed
    qed
  qed
qed

lemma check_guardian_key_subset_frame:
  assumes "check_guardian_key_subset M c s = Inr (v, s')"
  shows "globals s' = globals s \<and> invoked s' = invoked s \<and>
     (\<forall>k. k \<noteq> SLOTID_TEMP_0 \<longrightarrow> scratch s' k = scratch s k)"
  using key_subset_loop_frame [of M c "store s SLOTID_TEMP_0 0" v s'] assms
  by (simp add: check_guardian_key_subset_def)

text \<open>The registry of the scenario, and the check on a step that carries two keys.\<close>

lemma registry5_num: "globals s = globals registry5 \<Longrightarrow> NUM_GUARDIANS s = Uint 5"
  by (simp add: NUM_GUARDIANS_def globalGet_def registry5_def bytes_of_def Itob_def)

lemma registry5_hash:
  "globals s = globals registry5 \<Longrightarrow> STATELESS_LOGIC_HASH s = Bytes verifier_hash"
  by (simp add: STATELESS_LOGIC_HASH_def globalGet_def registry5_def bytes_of_def Itob_def)

lemma registry5_keys:
  assumes "globals s = globals registry5"
  shows "globalGet s (Itob 0) = Bytes (guardian_key 0)"
    and "globalGet s (Itob 1) = Bytes (guardian_key 1)"
  using assms by (simp_all add: globalGet_def registry5_def bytes_of_def Itob_def)

lemma differs_first:
  assumes "application_args (txn c) = [nm, guardian_key a @ guardian_key b, sz]"
      and "globalGet s (Itob 0) = Bytes k"
  shows "guardian_key_differs c s 0 = Inr (k \<noteq> guardian_key a)"
  using assms
  by (simp add: guardian_key_differs_def VERIFY_ARG_GUARDIAN_KEY_SUBSET_def arg_def bindE_def
      Extract_def teal_neq_def teal_eq_def guardian_key_def)

lemma differs_second:
  assumes "application_args (txn c) = [nm, guardian_key a @ guardian_key b, sz]"
      and "globalGet s (Itob 1) = Bytes k"
  shows "guardian_key_differs c s 1 = Inr (k \<noteq> guardian_key b)"
  using assms
  by (simp add: guardian_key_differs_def VERIFY_ARG_GUARDIAN_KEY_SUBSET_def arg_def bindE_def
      Extract_def teal_neq_def teal_eq_def guardian_key_def)

lemma sig_counts:
  "get_sig_count_in_step 2 0 5 = 2" "get_sig_count_in_step 2 1 5 = 2"
  "get_sig_count_in_step 2 (Suc 0) 5 = 2" "get_sig_count_in_step 2 2 5 = 1"
  by (simp_all add: get_sig_count_in_step_def signer_range_def)

lemma step_ctx_simps [simp]:
  "txn (step_ctx i t) = t" "group_index (step_ctx i t) = i"
  "gscratch (step_ctx i t) = bits_set"
  "application_args (verify_txn keys p) = [bytes_of ''verify'', keys, Itob 5]"
  "sender (verify_txn keys p) = verifier_hash"
  "type_enum (verify_txn keys p) = ApplicationCall"
  "application_id (verify_txn keys p) = 7"
  by (simp_all add: step_ctx_def verify_txn_def)

lemma group_size_step_ctx [simp]: "group_size (step_ctx i t) = 3"
  by (simp add: step_ctx_def group_size_def) (simp add: verify_group_def)

lemma registry5_next:
  assumes "globals s = globals registry5"
      and "guardian_key_differs c (store s SLOTID_TEMP_0 i) i = Inr False"
      and "i < get_sig_count_in_step M (group_index c) 5"
      and "j = i + 1"
  shows "key_subset_loop M c (store s SLOTID_TEMP_0 i)
       = key_subset_loop M c (store s SLOTID_TEMP_0 j)"
proof -
  have "key_subset_loop M c (store s SLOTID_TEMP_0 i)
      = key_subset_loop M c (store (store s SLOTID_TEMP_0 i) SLOTID_TEMP_0 (i + 1))"
    by (rule key_loop_next [where n = 5]) (simp_all add: registry5_num assms)
  then show ?thesis by (simp add: assms(4))
qed

lemma registry5_differs:
  assumes "globals s = globals registry5"
      and "guardian_key_differs c (store s SLOTID_TEMP_0 i) i = Inr True"
      and "i < get_sig_count_in_step M (group_index c) 5"
  shows "key_subset_loop M c (store s SLOTID_TEMP_0 i) = Inr (0, store s SLOTID_TEMP_0 i)"
  by (rule key_loop_differs [where n = 5 and i = i]) (simp_all add: registry5_num assms)

lemma registry5_exit:
  assumes "globals s = globals registry5"
      and "\<not> i < get_sig_count_in_step M (group_index c) 5"
  shows "key_subset_loop M c (store s SLOTID_TEMP_0 i) = Inr (1, store s SLOTID_TEMP_0 i)"
  by (rule key_loop_exit [where n = 5 and i = i]) (simp_all add: registry5_num assms)

lemma first_two_keys_accepted:
  assumes G: "globals s = globals registry5" and i: "i < 2"
  shows "check_guardian_key_subset 2
           (step_ctx i (verify_txn (guardian_key 0 @ guardian_key 1) p)) s
         = Inr (1, store s SLOTID_TEMP_0 2)"
proof -
  let ?c = "step_ctx i (verify_txn (guardian_key 0 @ guardian_key 1) p)"
  let ?T = SLOTID_TEMP_0
  have cnt: "get_sig_count_in_step 2 i 5 = 2"
  proof -
    from i have "i = 0 \<or> i = 1" by arith
    then show ?thesis using sig_counts by auto
  qed
  have args: "application_args (txn ?c) = [bytes_of ''verify'', guardian_key 0 @ guardian_key 1, Itob 5]"
    by simp
  have "guardian_key_differs ?c (store s ?T 0) 0 = Inr (guardian_key 0 \<noteq> guardian_key 0)"
    by (rule differs_first [OF args], rule registry5_keys) (simp add: G)
  then have d0: "guardian_key_differs ?c (store s ?T 0) 0 = Inr False" by simp
  have "guardian_key_differs ?c (store s ?T 1) 1 = Inr (guardian_key 1 \<noteq> guardian_key 1)"
    by (rule differs_second [OF args], rule registry5_keys) (simp add: G)
  then have d1: "guardian_key_differs ?c (store s ?T 1) 1 = Inr False" by simp
  have "check_guardian_key_subset 2 ?c s = key_subset_loop 2 ?c (store s ?T 0)"
    by (simp add: check_guardian_key_subset_def)
  also have "\<dots> = key_subset_loop 2 ?c (store s ?T 1)"
    by (rule registry5_next [OF G d0]) (simp_all add: cnt)
  also have "\<dots> = key_subset_loop 2 ?c (store s ?T 2)"
    by (rule registry5_next [OF G d1]) (simp_all add: cnt)
  also have "\<dots> = Inr (1, store s ?T 2)"
    by (rule registry5_exit [OF G]) (simp add: cnt)
  finally show ?thesis .
qed

lemma other_keys_rejected:
  assumes G: "globals s = globals registry5"
  shows "check_guardian_key_subset 2
           (step_ctx 1 (verify_txn (guardian_key 2 @ guardian_key 3) p)) s
         = Inr (0, store s SLOTID_TEMP_0 0)"
proof -
  let ?c = "step_ctx 1 (verify_txn (guardian_key 2 @ guardian_key 3) p)"
  let ?T = SLOTID_TEMP_0
  have args: "application_args (txn ?c) = [bytes_of ''verify'', guardian_key 2 @ guardian_key 3, Itob 5]"
    by simp
  have "guardian_key_differs ?c (store s ?T 0) 0 = Inr (guardian_key 0 \<noteq> guardian_key 2)"
    by (rule differs_first [OF args], rule registry5_keys) (simp add: G)
  then have d0: "guardian_key_differs ?c (store s ?T 0) 0 = Inr True"
    by (simp add: guardian_key_def)
  have "check_guardian_key_subset 2 ?c s = key_subset_loop 2 ?c (store s ?T 0)"
    by (simp add: check_guardian_key_subset_def)
  also have "\<dots> = Inr (0, store s ?T 0)"
    by (rule registry5_differs [OF G d0]) (simp add: sig_counts)
  finally show ?thesis .
qed

text \<open>
  Claim C1 does not hold of the code. The claim: in step \<open>i\<close> the provided keys are
  compared with the registry keys at the indices of the step's signer range. The loop
  of the source reads the registry at its own counter, \<^verbatim>\<open>App.globalGet(Itob(i.load()))\<close>
  with \<open>i\<close> starting at 0, whatever \<^verbatim>\<open>Txn.group_index()\<close> is. In step 1 of the
  scenario, whose signer range is \<open>[2,4)\<close>, the check returns 1 for the keys of the
  guardians 0 and 1, and returns 0 for the keys of the guardians 2 and 3.
\<close>

theorem check_guardian_key_subset_step1:
  "signer_range 2 5 1 = (2, 4)
   \<and> check_guardian_key_subset 2 (step1_ctx (guardian_key 0 @ guardian_key 1)) registry5
       = Inr (1, store registry5 SLOTID_TEMP_0 2)
   \<and> check_guardian_key_subset 2 (step1_ctx (guardian_key 2 @ guardian_key 3)) registry5
       = Inr (0, store registry5 SLOTID_TEMP_0 0)"
  using first_two_keys_accepted [of registry5 1 pyth_payload]
    other_keys_rejected [of registry5 pyth_payload]
  by (simp add: step1_ctx_def signer_range_def)

section \<open>A verification step\<close>

lemma verify_checks_ok:
  assumes "verify_checks M c s = Inr (True, s1)"
  shows "(\<exists>n. NUM_GUARDIANS s = Uint n \<and> group_size c = get_group_size M n
              \<and> Btoi (application_args (txn c) ! 2) = Inr n)
         \<and> length (application_args (txn c)) = 3
         \<and> STATELESS_LOGIC_HASH s = Bytes (sender (txn c))"
    and "\<exists>v. check_guardian_key_subset M c s = Inr (v, s1)"
  using assms
  by (auto simp: verify_checks_def bindE_def as_uint_def teal_eq_def check_guardian_set_size_def
      VERIFY_ARG_GUARDIAN_SET_SIZE_def arg_def
      split: sum.splits prod.splits teal_value.splits if_splits)

lemma verify_result:
  assumes "verify M c s = Some (Inr (v, s'))"
  shows "\<exists>s1. verify_checks M c (store s SLOTID_VERIFIED_BIT 0) = Inr (True, s1)"
  using assms
  by (auto simp: verify_def split: sum.splits prod.splits if_splits)

lemma verify_rejects:
  assumes "\<And>s1. verify_checks M c (store s SLOTID_VERIFIED_BIT 0) \<noteq> Inr (True, s1)"
  shows "\<exists>e. verify M c s = Some (Inl e)"
proof (cases "verify_checks M c (store s SLOTID_VERIFIED_BIT 0)")
  case (Inl e)
  then show ?thesis by (simp add: verify_def)
next
  case (Inr r)
  obtain ok s1 where r: "r = (ok, s1)" by (cases r)
  with Inr assms have "\<not> ok" by auto
  with Inr r show ?thesis by (simp add: verify_def)
qed

lemma verify_nonfinal_result:
  assumes "verify M c s = Some (Inr (v, s'))" and "group_index c \<noteq> group_size c - 1"
  shows "\<exists>s1 w. verify_checks M c (store s SLOTID_VERIFIED_BIT 0) = Inr (True, s1)
           \<and> SetBit (scratch s1 SLOTID_VERIFIED_BIT) (group_index c) 1 = Inr w
           \<and> v = 1 \<and> s' = store s1 SLOTID_VERIFIED_BIT w"
  using assms
  by (auto simp: verify_def minus_u64_def split: sum.splits prod.splits if_splits)

lemma set_bit_zero: "set_bit i (0::nat) = 2 ^ i"
  by (simp add: set_bit_eq_or)

lemma bit_power_two: "bit ((2::nat) ^ i) j \<longleftrightarrow> j = i"
  by (simp add: bit_exp_iff)

text \<open>
  Claim C5. A verification step that does not fail has passed the four checks: the
  group size is the step count for the registry's guardian count, there are exactly
  three application arguments, the sender is the stored \<open>vphash\<close>, and the third
  argument decodes to the registry's \<open>gscount\<close>. If one of them does not hold the
  step fails (and with it the group).
\<close>

theorem verify_preconditions:
  "(verify M c s = Some (Inr (v, s')) \<longrightarrow>
      (\<exists>n. NUM_GUARDIANS s = Uint n \<and> group_size c = get_group_size M n
            \<and> Btoi (application_args (txn c) ! 2) = Inr n)
      \<and> length (application_args (txn c)) = 3
      \<and> STATELESS_LOGIC_HASH s = Bytes (sender (txn c)))
   \<and> (\<not> ((\<exists>n. NUM_GUARDIANS s = Uint n \<and> group_size c = get_group_size M n
                \<and> Btoi (application_args (txn c) ! 2) = Inr n)
           \<and> length (application_args (txn c)) = 3
           \<and> STATELESS_LOGIC_HASH s = Bytes (sender (txn c))) \<longrightarrow>
       (\<exists>e. verify M c s = Some (Inl e)))"
proof (intro conjI impI)
  assume "verify M c s = Some (Inr (v, s'))"
  then obtain s1 where "verify_checks M c (store s SLOTID_VERIFIED_BIT 0) = Inr (True, s1)"
    using verify_result by blast
  from verify_checks_ok(1) [OF this]
  show "\<exists>n. NUM_GUARDIANS s = Uint n \<and> group_size c = get_group_size M n
            \<and> Btoi (application_args (txn c) ! 2) = Inr n"
    and "length (application_args (txn c)) = 3"
    and "STATELESS_LOGIC_HASH s = Bytes (sender (txn c))"
    by simp_all
next
  assume neg: "\<not> ((\<exists>n. NUM_GUARDIANS s = Uint n \<and> group_size c = get_group_size M n
                \<and> Btoi (application_args (txn c) ! 2) = Inr n)
           \<and> length (application_args (txn c)) = 3
           \<and> STATELESS_LOGIC_HASH s = Bytes (sender (txn c)))"
  have "verify_checks M c (store s SLOTID_VERIFIED_BIT 0) \<noteq> Inr (True, s1)" for s1
  proof
    assume "verify_checks M c (store s SLOTID_VERIFIED_BIT 0) = Inr (True, s1)"
    from verify_checks_ok(1) [OF this] neg show False by simp
  qed
  then show "\<exists>e. verify M c s = Some (Inl e)" by (rule verify_rejects)
qed

text \<open>
  Claim C8. A verification step that is not the last of its group and does not fail
  returns 1, leaves the global state (the guardian registry: \<open>vphash\<close>, \<open>gscount\<close>,
  \<open>gsexp\<close>, the keys) as it was, calls no handler, and leaves in its slot 254 the
  value with bit \<open>Txn.group_index()\<close> set and no other bit. Of the scratch space it
  writes slot 254 and the loop counter of the key check, slot 251, and nothing else.
\<close>

theorem verify_nonfinal_effect:
  assumes "verify M c s = Some (Inr (v, s'))"
      and "group_index c \<noteq> group_size c - 1"
  shows "v = 1 \<and> globals s' = globals s \<and> invoked s' = invoked s
       \<and> scratch s' SLOTID_VERIFIED_BIT = 2 ^ group_index c
       \<and> (\<forall>j. bit (scratch s' SLOTID_VERIFIED_BIT) j \<longleftrightarrow> j = group_index c)
       \<and> (\<forall>k. k \<noteq> SLOTID_VERIFIED_BIT \<and> k \<noteq> SLOTID_TEMP_0 \<longrightarrow> scratch s' k = scratch s k)"
proof -
  from verify_nonfinal_result [OF assms] obtain s1 w
    where checks: "verify_checks M c (store s SLOTID_VERIFIED_BIT 0) = Inr (True, s1)"
      and w: "SetBit (scratch s1 SLOTID_VERIFIED_BIT) (group_index c) 1 = Inr w"
      and v: "v = 1" and s': "s' = store s1 SLOTID_VERIFIED_BIT w"
    by blast
  from verify_checks_ok(2) [OF checks] obtain k
    where "check_guardian_key_subset M c (store s SLOTID_VERIFIED_BIT 0) = Inr (k, s1)" by blast
  from check_guardian_key_subset_frame [OF this]
  have frame: "globals s1 = globals s" "invoked s1 = invoked s"
    "\<And>k. k \<noteq> SLOTID_TEMP_0 \<Longrightarrow>
       scratch s1 k = (if k = SLOTID_VERIFIED_BIT then 0 else scratch s k)"
    by simp_all
  have "SLOTID_VERIFIED_BIT \<noteq> SLOTID_TEMP_0"
    by (simp add: SLOTID_VERIFIED_BIT_def SLOTID_TEMP_0_def)
  with frame(3) have "scratch s1 SLOTID_VERIFIED_BIT = 0" by simp
  with w have "w = 2 ^ group_index c"
    by (simp add: SetBit_def set_bit_zero split: if_splits)
  with v s' frame show ?thesis by (simp add: bit_power_two)
qed

text \<open>Step 0 of the scenario, with the keys of its signer range \<open>[0,2)\<close>.\<close>

lemma Btoi_Itob_5: "Btoi (Itob 5) = Inr 5"
  by (simp add: Btoi_def Itob_def be_nat_def)

lemma verify_checks_step0:
  assumes G: "globals s = globals registry5"
  shows "verify_checks 2 step0_ctx s = Inr (True, store s SLOTID_TEMP_0 2)"
proof -
  have keys: "check_guardian_key_subset 2 step0_ctx s = Inr (1, store s SLOTID_TEMP_0 2)"
    unfolding step0_ctx_def by (rule first_two_keys_accepted [OF G]) simp
  have size: "check_guardian_set_size step0_ctx s = Inr True"
    by (simp add: check_guardian_set_size_def VERIFY_ARG_GUARDIAN_SET_SIZE_def arg_def
        bindE_def step0_ctx_def Btoi_Itob_5 registry5_num [OF G] teal_eq_def)
  have hash: "teal_eq (Bytes (sender (txn step0_ctx))) (STATELESS_LOGIC_HASH s) = Inr True"
    by (simp add: step0_ctx_def registry5_hash [OF G] teal_eq_def)
  have "get_group_size 2 5 = 3" by (simp add: get_group_size_def)
  then show ?thesis
    by (simp add: verify_checks_def bindE_def as_uint_def registry5_num [OF G] hash size keys)
       (simp add: step0_ctx_def)
qed

lemma verify_step0:
  "verify 2 step0_ctx registry5 =
     Some (Inr (1, store (store (store registry5 SLOTID_VERIFIED_BIT 0) SLOTID_TEMP_0 2)
                     SLOTID_VERIFIED_BIT 1))"
proof -
  have neq: "SLOTID_VERIFIED_BIT \<noteq> SLOTID_TEMP_0"
    by (simp add: SLOTID_VERIFIED_BIT_def SLOTID_TEMP_0_def)
  have checks: "verify_checks 2 step0_ctx (store registry5 SLOTID_VERIFIED_BIT 0)
      = Inr (True, store (store registry5 SLOTID_VERIFIED_BIT 0) SLOTID_TEMP_0 2)"
    by (rule verify_checks_step0) simp
  have idx: "group_index step0_ctx = 0" "group_size step0_ctx = 3"
    by (simp_all add: step0_ctx_def)
  show ?thesis
    by (simp add: verify_def checks neq idx SetBit_def set_bit_zero minus_u64_def)
qed

theorem verify_preconditions_witness:
  "(\<exists>n. NUM_GUARDIANS registry5 = Uint n \<and> group_size step0_ctx = get_group_size 2 n
        \<and> Btoi (application_args (txn step0_ctx) ! 2) = Inr n)
   \<and> length (application_args (txn step0_ctx)) = 3
   \<and> STATELESS_LOGIC_HASH registry5 = Bytes (sender (txn step0_ctx))"
  using verify_preconditions [of 2 step0_ctx registry5] verify_step0 by blast

theorem verify_nonfinal_effect_witness:
  "globals (store (store (store registry5 SLOTID_VERIFIED_BIT 0) SLOTID_TEMP_0 2)
              SLOTID_VERIFIED_BIT 1) = globals registry5
   \<and> scratch (store (store (store registry5 SLOTID_VERIFIED_BIT 0) SLOTID_TEMP_0 2)
              SLOTID_VERIFIED_BIT 1) SLOTID_VERIFIED_BIT = 2 ^ group_index step0_ctx"
proof -
  have "group_index step0_ctx \<noteq> group_size step0_ctx - 1"
    by (simp add: step0_ctx_def)
  from verify_nonfinal_effect [OF verify_step0 this] show ?thesis by blast
qed

section \<open>The final audit\<close>

text \<open>
  A run of the loop that returns was not at an index below the group size whose
  check passes: from such an index the step \<^verbatim>\<open>i.store(i.load() + Int(0))\<close> leads back
  to the same state.
\<close>

lemma final_loop_returns:
  assumes r: "final_loop c s = Some r"
  shows "\<not> (scratch s SLOTID_TEMP_0 < group_size c
           \<and> final_check c (scratch s SLOTID_TEMP_0) = Inr True)"
  by (rule final_loop.raw_induct [rotated, OF r]) (auto simp: store_same)

lemma final_loop_stuck:
  assumes "scratch s SLOTID_TEMP_0 < group_size c"
      and "final_check c (scratch s SLOTID_TEMP_0) = Inr True"
  shows "final_loop c s = None"
proof (cases "final_loop c s")
  case None
  then show ?thesis .
next
  case (Some r)
  from final_loop_returns [OF Some] assms show ?thesis by simp
qed

lemma check_final_stuck:
  assumes "0 < group_size c" and "final_check c 0 = Inr True"
  shows "check_final_verification_state c s = None"
  unfolding check_final_verification_state_def
  by (rule final_loop_stuck) (simp_all add: assms)

text \<open>In a group that is not empty the audit never returns 1.\<close>

lemma check_final_never_succeeds:
  assumes "0 < group_size c"
  shows "check_final_verification_state c s \<noteq> Some (Inr (v, s'))"
proof
  let ?s = "store s SLOTID_TEMP_0 0"
  assume "check_final_verification_state c s = Some (Inr (v, s'))"
  then have r: "final_loop c ?s = Some (Inr (v, s'))"
    by (simp add: check_final_verification_state_def)
  from final_loop_returns [OF r] assms have "final_check c 0 \<noteq> Inr True" by simp
  with r assms show False
    by (subst (asm) final_loop.simps) (auto split: sum.splits if_splits)
qed

lemma final_check_last_ctx: "final_check last_ctx 0 = Inr True"
  by (simp add: final_check_def last_ctx_def step_ctx_def verify_group_def verify_txn_def
      Gtxn_def ImportScratchValue_def GetBit_def bindE_def bits_set_def
      SLOTID_VERIFIED_BIT_def bit_Suc_0_iff)

lemma final_check_foreign_ctx:
  "final_check foreign_step_ctx 0 = Inr True" "final_check foreign_step_ctx 1 = Inr False"
  by (simp_all add: final_check_def foreign_step_ctx_def verify_group_def verify_txn_def
      foreign_txn_def Gtxn_def ImportScratchValue_def GetBit_def bindE_def bits_set_def
      SLOTID_VERIFIED_BIT_def bit_Suc_0_iff)

text \<open>
  Claim C2 does not hold of the code. The claim: the audit asserts, for every index
  \<open>j\<close> below the group size, that transaction \<open>j\<close> is a call of this application with
  bit \<open>j\<close> set, and rejects when one assertion fails. In the group of the scenario with
  step 1 replaced by a call of another application that left no bit, the assertion at
  index 1 would fail, but the audit of the last step does not reach it: the loop
  stays at index 0 and does not return.
\<close>

theorem check_final_verification_state_foreign_step:
  "group_size foreign_step_ctx = 3
   \<and> application_id (gtxn foreign_step_ctx ! 1) \<noteq> application_id (txn foreign_step_ctx)
   \<and> final_check foreign_step_ctx 1 = Inr False
   \<and> check_final_verification_state foreign_step_ctx registry5 = None"
proof -
  have size: "group_size foreign_step_ctx = 3"
    by (simp add: group_size_def foreign_step_ctx_def verify_group_def)
  have "application_id (gtxn foreign_step_ctx ! 1) \<noteq> application_id (txn foreign_step_ctx)"
    by (simp add: foreign_step_ctx_def verify_group_def foreign_txn_def verify_txn_def)
  moreover have "check_final_verification_state foreign_step_ctx registry5 = None"
    by (rule check_final_stuck) (simp_all add: size final_check_foreign_ctx)
  ultimately show ?thesis using size final_check_foreign_ctx(2) by simp
qed

text \<open>
  Claim C3 does not hold of the code. The claim: the loop of the audit terminates
  for every group size. In the last step of the scenario, where every step is a call
  of this application and has left its bit, the audit does not return.
\<close>

theorem check_final_verification_state_diverges:
  "group_size last_ctx = 3 \<and> check_final_verification_state last_ctx registry5 = None"
proof -
  have size: "group_size last_ctx = 3" by (simp add: last_ctx_def)
  have "check_final_verification_state last_ctx registry5 = None"
    by (rule check_final_stuck) (simp_all add: size final_check_last_ctx)
  with size show ?thesis by simp
qed

section \<open>The payload router\<close>

lemmas vaa_offsets =
  VAA_RECORD_EMITTER_CHAIN_POS_def VAA_RECORD_EMITTER_CHAIN_LEN_def
  VAA_RECORD_EMITTER_ADDR_POS_def VAA_RECORD_EMITTER_ADDR_LEN_def

lemma commit_vaa_short:
  "length payload < 42 \<Longrightarrow> commit_vaa payload s = Inl ExtractOutOfRange"
  by (simp add: commit_vaa_def bindE_def Extract_def Btoi_def vaa_offsets)

text \<open>
  On a payload that holds the whole header the router fails as well: the emitter
  address is 32 bytes long, and \<open>Btoi\<close> takes at most eight.
\<close>

lemma commit_vaa_long:
  "42 \<le> length payload \<Longrightarrow> commit_vaa payload s = Inl BtoiTooLong"
  by (simp add: commit_vaa_def bindE_def Extract_def Btoi_def vaa_offsets)

lemma extract_header:
  "(\<exists>cb ab. Extract payload VAA_RECORD_EMITTER_CHAIN_POS VAA_RECORD_EMITTER_CHAIN_LEN = Inr cb
      \<and> Extract payload VAA_RECORD_EMITTER_ADDR_POS VAA_RECORD_EMITTER_ADDR_LEN = Inr ab)
   \<longleftrightarrow> 42 \<le> length payload"
  by (auto simp: Extract_def vaa_offsets)

lemma foldl_zeros: "foldl (\<lambda>a b. a * 256 + unat b) 0 (replicate n (0::byte)) = 0"
  by (induction n) simp_all

lemma be_nat_zeros: "be_nat (replicate n 0 @ bs) = be_nat bs"
  by (simp add: be_nat_def foldl_zeros)

lemma be_nat_pair: "be_nat [a, b] = unat a * 256 + unat b"
  by (simp add: be_nat_def)

lemma be_nat_single: "be_nat [a] = unat a"
  by (simp add: be_nat_def)

lemma header_payload:
  "Extract (replicate 8 0 @ [a, b] @ replicate 31 0 @ [d])
     VAA_RECORD_EMITTER_CHAIN_POS VAA_RECORD_EMITTER_CHAIN_LEN = Inr [a, b]"
  "Extract (replicate 8 0 @ [a, b] @ replicate 31 0 @ [d])
     VAA_RECORD_EMITTER_ADDR_POS VAA_RECORD_EMITTER_ADDR_LEN = Inr (replicate 31 0 @ [d])"
  by (simp_all add: Extract_def vaa_offsets)

text \<open>
  Claim C4 does not hold of the code. The claim: a payload whose header holds the
  emitter chain 5 and the emitter address 6 is handed to the price-ticker handler and
  the unit succeeds. The second branch of the router compares the address with
  \<open>GOVERNANCE_CONTRACT_ID_TEST\<close>, so the pair it takes for the price ticker is \<open>(5, 4)\<close>;
  on \<open>(5, 6)\<close> the branches return 0 and call no handler. Before the branches are
  reached, \<open>Btoi\<close> fails on the 32 bytes of the address, for this payload as for any
  other.
\<close>

theorem commit_vaa_pyth_origin:
  "Extract pyth_payload VAA_RECORD_EMITTER_CHAIN_POS VAA_RECORD_EMITTER_CHAIN_LEN = Inr [0, 5]
   \<and> be_nat [0, 5] = PYTH2WORMHOLE_CHAIN_ID_TEST
   \<and> Extract pyth_payload VAA_RECORD_EMITTER_ADDR_POS VAA_RECORD_EMITTER_ADDR_LEN
       = Inr (replicate 31 0 @ [6])
   \<and> be_nat (replicate 31 0 @ [6]) = PYTH2WORMHOLE_CONTRACT_ID_TEST
   \<and> commit_vaa_dispatch PYTH2WORMHOLE_CHAIN_ID_TEST PYTH2WORMHOLE_CONTRACT_ID_TEST registry5
       = (0, registry5)
   \<and> commit_vaa_dispatch PYTH2WORMHOLE_CHAIN_ID_TEST GOVERNANCE_CONTRACT_ID_TEST registry5
       = handle_pyth_price_ticker registry5
   \<and> commit_vaa pyth_payload registry5 = Inl BtoiTooLong"
proof -
  have "commit_vaa pyth_payload registry5 = Inl BtoiTooLong"
    by (rule commit_vaa_long) (simp add: pyth_payload_def)
  moreover have
    "Extract pyth_payload VAA_RECORD_EMITTER_CHAIN_POS VAA_RECORD_EMITTER_CHAIN_LEN = Inr [0, 5]"
    "Extract pyth_payload VAA_RECORD_EMITTER_ADDR_POS VAA_RECORD_EMITTER_ADDR_LEN
       = Inr (replicate 31 0 @ [6])"
    unfolding pyth_payload_def by (rule header_payload)+
  ultimately show ?thesis
    by (simp add: be_nat_zeros be_nat_pair be_nat_single
        commit_vaa_dispatch_def PYTH2WORMHOLE_CHAIN_ID_TEST_def PYTH2WORMHOLE_CONTRACT_ID_TEST_def
        GOVERNANCE_CHAIN_ID_TEST_def GOVERNANCE_CONTRACT_ID_TEST_def)
qed

text \<open>
  Claim C6 does not hold of the code. The claim: on a payload whose header holds a
  pair that is neither the governance origin \<open>(3, 4)\<close> nor the price-ticker origin
  \<open>(5, 6)\<close>, \<open>commit_vaa\<close> returns 0 and no handler runs. The pair \<open>(5, 4)\<close> is neither of
  the two, and the branches of the router hand it to the price-ticker handler and
  return 1: the second branch compares the address with \<open>GOVERNANCE_CONTRACT_ID_TEST\<close>.
  And \<open>commit_vaa\<close> returns 0 on no payload at all: on the payload with the pair
  \<open>(5, 4)\<close>, as on the one with the unregistered pair \<open>(7, 9)\<close>, it fails in \<open>Btoi\<close> on
  the 32 bytes of the address before a branch is taken.
\<close>

theorem commit_vaa_unregistered_origin:
  "Extract misrouted_payload VAA_RECORD_EMITTER_CHAIN_POS VAA_RECORD_EMITTER_CHAIN_LEN
       = Inr [0, 5]
   \<and> be_nat [0, 5] = 5
   \<and> Extract misrouted_payload VAA_RECORD_EMITTER_ADDR_POS VAA_RECORD_EMITTER_ADDR_LEN
       = Inr (replicate 31 0 @ [4])
   \<and> be_nat (replicate 31 0 @ [4]) = 4
   \<and> (5, 4) \<noteq> (GOVERNANCE_CHAIN_ID_TEST, GOVERNANCE_CONTRACT_ID_TEST)
   \<and> (5, 4) \<noteq> (PYTH2WORMHOLE_CHAIN_ID_TEST, PYTH2WORMHOLE_CONTRACT_ID_TEST)
   \<and> commit_vaa_dispatch 5 4 registry5 = (1, registry5\<lparr>invoked := [PythPriceTicker]\<rparr>)
   \<and> commit_vaa misrouted_payload registry5 = Inl BtoiTooLong
   \<and> commit_vaa unroutable_payload registry5 = Inl BtoiTooLong"
proof -
  have "commit_vaa misrouted_payload registry5 = Inl BtoiTooLong"
    by (rule commit_vaa_long) (simp add: misrouted_payload_def)
  moreover have "commit_vaa unroutable_payload registry5 = Inl BtoiTooLong"
    by (rule commit_vaa_long) (simp add: unroutable_payload_def)
  moreover have
    "Extract misrouted_payload VAA_RECORD_EMITTER_CHAIN_POS VAA_RECORD_EMITTER_CHAIN_LEN
       = Inr [0, 5]"
    "Extract misrouted_payload VAA_RECORD_EMITTER_ADDR_POS VAA_RECORD_EMITTER_ADDR_LEN
       = Inr (replicate 31 0 @ [4])"
    unfolding misrouted_payload_def by (rule header_payload)+
  moreover have
    "commit_vaa_dispatch 5 4 registry5 = (1, registry5\<lparr>invoked := [PythPriceTicker]\<rparr>)"
    by (simp add: commit_vaa_dispatch_def handle_pyth_price_ticker_def registry5_def
        PYTH2WORMHOLE_CHAIN_ID_TEST_def GOVERNANCE_CHAIN_ID_TEST_def
        GOVERNANCE_CONTRACT_ID_TEST_def)
  ultimately show ?thesis
    by (simp add: be_nat_zeros be_nat_pair be_nat_single
        PYTH2WORMHOLE_CHAIN_ID_TEST_def PYTH2WORMHOLE_CONTRACT_ID_TEST_def
        GOVERNANCE_CHAIN_ID_TEST_def GOVERNANCE_CONTRACT_ID_TEST_def)
qed

text \<open>
  Claim C10. The router reads the bytes \<open>[8, 10)\<close> and \<open>[10, 42)\<close> of the payload: both
  extractions are defined exactly for the payloads of at least 42 bytes, and on every
  shorter payload the router fails in \<open>Extract\<close>, so that no handler runs and nothing
  changes.
\<close>

theorem commit_vaa_short_payload:
  "((\<exists>cb ab. Extract payload VAA_RECORD_EMITTER_CHAIN_POS VAA_RECORD_EMITTER_CHAIN_LEN = Inr cb
        \<and> Extract payload VAA_RECORD_EMITTER_ADDR_POS VAA_RECORD_EMITTER_ADDR_LEN = Inr ab)
     \<longleftrightarrow> 42 \<le> length payload)
   \<and> (length payload < 42 \<longrightarrow>
        commit_vaa payload s = Inl ExtractOutOfRange
        \<and> outcome_state s (commit_vaa payload s) = s
        \<and> invoked (outcome_state s (commit_vaa payload s)) = invoked s)"
  using extract_header [of payload] commit_vaa_short [of payload s]
  by (simp add: outcome_state_def)

theorem commit_vaa_short_payload_witness:
  "commit_vaa (replicate 41 0) registry5 = Inl ExtractOutOfRange
   \<and> outcome_state registry5 (commit_vaa (replicate 41 0) registry5) = registry5"
  using commit_vaa_short_payload [of "replicate 41 0" registry5]
  by (simp add: outcome_state_def)

section \<open>Setting the verifier identity\<close>

text \<open>
  Claim C7. \<^verbatim>\<open>setvphash\<close> succeeds exactly when the sender is the creator, the call
  is alone in its group, and there are exactly two application arguments of which the
  second is 32 bytes long; it then stores that argument under \<open>vphash\<close>. In every other
  case it fails, and the global state, \<open>vphash\<close> included, stays as it was.
\<close>

theorem setvphash_spec:
  "(is_creator c \<and> group_size c = 1 \<and> length (application_args (txn c)) = 2
      \<and> length (application_args (txn c) ! 1) = 32 \<longrightarrow>
        setvphash c s
          = Inr (1, globalPut s (bytes_of ''vphash'') (Bytes (application_args (txn c) ! 1)))
        \<and> STATELESS_LOGIC_HASH (outcome_state s (setvphash c s))
          = Bytes (application_args (txn c) ! 1))
   \<and> (\<not> (is_creator c \<and> group_size c = 1 \<and> length (application_args (txn c)) = 2
          \<and> length (application_args (txn c) ! 1) = 32) \<longrightarrow>
        (\<exists>e. setvphash c s = Inl e)
        \<and> outcome_state s (setvphash c s) = s
        \<and> STATELESS_LOGIC_HASH (outcome_state s (setvphash c s)) = STATELESS_LOGIC_HASH s)"
  by (auto simp: setvphash_def arg_def bindE_def Len_def outcome_state_def globalPut_def
      STATELESS_LOGIC_HASH_def globalGet_def)

theorem setvphash_spec_witness:
  "setvphash admin_ctx registry5
     = Inr (1, globalPut registry5 (bytes_of ''vphash'') (Bytes verifier_hash))"
proof -
  have "is_creator admin_ctx \<and> group_size admin_ctx = 1
      \<and> length (application_args (txn admin_ctx)) = 2
      \<and> length (application_args (txn admin_ctx) ! 1) = 32"
    by (simp add: is_creator_def group_size_def admin_ctx_def Let_def verifier_hash_def)
  moreover have "application_args (txn admin_ctx) ! 1 = verifier_hash"
    by (simp add: admin_ctx_def Let_def)
  ultimately show ?thesis using setvphash_spec [of admin_ctx registry5] by simp
qed

end
